theory Spec2Isabelle
  imports Main
begin

section \<open>The values \<open>json.load\<close> hands to the script\<close>

text \<open>
  \<open>filter_repositories.py\<close> reads one JSON document with \<open>json.load\<close>, walks over the
  entries of the loaded object and copies each entry into one of two fresh dictionaries,
  \<open>file_a\<close> and \<open>file_b\<close>, which it then writes out with \<open>json.dump\<close>.

  A Python \<open>str\<close> is a sequence of Unicode code points, and \<open>len\<close>, slicing and
  \<open>startswith\<close> count code points. A string is therefore a list of code point numbers;
  \<open>lit\<close> turns an ASCII literal of the source into such a list.
\<close>

type_synonym pystr = "nat list"

definition lit :: "string \<Rightarrow> pystr" where
  "lit s = map of_char s"

text \<open>
  \<open>json.load\<close> returns \<open>None\<close>, a \<open>bool\<close>, an \<open>int\<close>, a \<open>float\<close>, a \<open>str\<close>, a \<open>list\<close> or a
  \<open>dict\<close> with \<open>str\<close> keys. The script never looks inside a \<open>float\<close>, so the type of floats
  is the parameter \<open>'f\<close>. A \<open>dict\<close> keeps its entries in insertion order: it is the list of
  its items, and a real \<open>dict\<close> has no key twice (\<open>distinct (map fst d)\<close>).
\<close>

datatype 'f json =
    JNull
  | JBool bool
  | JInt int
  | JFloat 'f
  | JStr pystr
  | JList "'f json list"
  | JObj "(pystr \<times> 'f json) list"

type_synonym 'f dict = "(pystr \<times> 'f json) list"

text \<open>
  The only exception the loop can raise: an attribute that the object at hand does not
  have (\<open>items\<close> on a root that is no \<open>dict\<close>, \<open>get\<close> on an entry that is no \<open>dict\<close>).
  The argument is the name of the missing attribute.
\<close>

datatype error = AttributeError string

section \<open>The dictionary operations the script uses\<close>

text \<open>\<open>data.items()\<close>: the entries of a \<open>dict\<close> in order; no other JSON value has \<open>items\<close>.\<close>

fun items :: "'f json \<Rightarrow> error + 'f dict" where
  "items (JObj d) = Inr d"
| "items _ = Inl (AttributeError ''items'')"

text \<open>
  \<open>value.get(key)\<close>: the value stored under \<open>key\<close>, \<open>None\<close> when the key is missing;
  \<open>None\<close>, numbers, strings and lists have no \<open>get\<close>.
\<close>

fun get :: "'f json \<Rightarrow> pystr \<Rightarrow> error + 'f json" where
  "get (JObj d) key = Inr (case map_of d key of None \<Rightarrow> JNull | Some v \<Rightarrow> v)"
| "get _ key = Inl (AttributeError ''get'')"

text \<open>
  \<open>d[key] = value\<close>: a key already present keeps its position and takes the new value,
  a new key goes to the end.
\<close>

fun setitem :: "'f dict \<Rightarrow> pystr \<Rightarrow> 'f json \<Rightarrow> 'f dict" where
  "setitem [] key v = [(key, v)]"
| "setitem ((k, w) # d) key v =
     (if k = key then (k, v) # d else (k, w) # setitem d key v)"

text \<open>\<open>s.startswith(p)\<close>: \<open>s\<close> is at least as long as \<open>p\<close> and begins with it.\<close>

definition startswith :: "pystr \<Rightarrow> pystr \<Rightarrow> bool" where
  "startswith s p = (length p \<le> length s \<and> take (length p) s = p)"

section \<open>The partition loop\<close>

text \<open>
  The test of the \<open>if\<close> in the loop body:
  \<^verbatim>\<open>last_checked is None or (isinstance(last_checked, str) and last_checked.startswith("2023"))\<close>
\<close>

fun is_2023_or_null :: "'f json \<Rightarrow> bool" where
  "is_2023_or_null JNull = True"
| "is_2023_or_null (JStr s) = startswith s (lit ''2023'')"
| "is_2023_or_null _ = False"

text \<open>
  \<^verbatim>\<open>
  for key, value in data.items():
      last_checked = value.get("lastCheckedAt")
      if <test>:
          file_a[key] = value
      else:
          file_b[key] = value
  \<close>
  The loop over the remaining items, with the two dictionaries built so far as state.
  An exception in the body ends the run.
\<close>

fun partition_loop :: "'f dict \<Rightarrow> 'f dict \<times> 'f dict \<Rightarrow> error + 'f dict \<times> 'f dict" where
  "partition_loop [] (file_a, file_b) = Inr (file_a, file_b)"
| "partition_loop ((key, val) # rest) (file_a, file_b) =
     (case get val (lit ''lastCheckedAt'') of
        Inl e \<Rightarrow> Inl e
      | Inr last_checked \<Rightarrow>
          if is_2023_or_null last_checked
          then partition_loop rest (setitem file_a key val, file_b)
          else partition_loop rest (file_a, setitem file_b key val))"

text \<open>
  The script from the loaded document \<open>data\<close> to the two dictionaries handed to
  \<open>json.dump\<close>: \<open>file_a\<close> and \<open>file_b\<close> start empty, and nothing is written when the loop
  raises, since both writes come after it.
\<close>

definition filter_repositories :: "'f json \<Rightarrow> error + 'f dict \<times> 'f dict" where
  "filter_repositories data =
     (case items data of
        Inl e \<Rightarrow> Inl e
      | Inr kvs \<Rightarrow> partition_loop kvs ([], []))"

section \<open>Datasets and where an entry lands\<close>

text \<open>The key set of a dictionary.\<close>

definition keys :: "'f dict \<Rightarrow> pystr set" where
  "keys d = fst ` set d"

text \<open>A Record is a JSON object, that is a \<open>dict\<close> after loading.\<close>

fun is_dict :: "'f json \<Rightarrow> bool" where
  "is_dict (JObj d) = True"
| "is_dict _ = False"

text \<open>
  A Dataset is the item list of a loaded \<open>dict\<close> (no key twice) whose values are all
  Records.
\<close>

definition is_dataset :: "'f dict \<Rightarrow> bool" where
  "is_dataset D = (distinct (map fst D) \<and> (\<forall>v \<in> snd ` set D. is_dict v))"

text \<open>
  What one pass of the loop body decides for the value of an entry: \<open>True\<close> when the body
  takes the branch that stores into \<open>file_a\<close>.
\<close>

definition takes_a :: "'f json \<Rightarrow> bool" where
  "takes_a val =
     (case get val (lit ''lastCheckedAt'') of
        Inl e \<Rightarrow> False
      | Inr last_checked \<Rightarrow> is_2023_or_null last_checked)"

section \<open>Auxiliary facts\<close>

lemma length_2023: "length (lit ''2023'') = 4"
  by (simp add: lit_def)

lemma startswith_2023: "startswith s (lit ''2023'') \<longleftrightarrow> take 4 s = lit ''2023''"
proof
  assume "startswith s (lit ''2023'')"
  then show "take 4 s = lit ''2023''"
    unfolding startswith_def length_2023 by simp
next
  assume h: "take 4 s = lit ''2023''"
  have "length (take 4 s) = 4" by (simp only: h length_2023)
  then have "4 \<le> length s" by simp
  with h show "startswith s (lit ''2023'')"
    unfolding startswith_def length_2023 by simp
qed

lemma setitem_fresh: "key \<notin> keys d \<Longrightarrow> setitem d key v = d @ [(key, v)]"
  by (induction d) (auto simp: keys_def)

lemma is_dict_get: "is_dict val \<Longrightarrow> \<exists>lc. get val key = Inr lc"
  by (cases val) simp_all

lemma loop_filter:
  assumes "\<forall>v \<in> snd ` set kvs. is_dict v"
    and "distinct (map fst kvs)"
    and "keys kvs \<inter> (keys a \<union> keys b) = {}"
  shows "partition_loop kvs (a, b) =
     Inr (a @ filter (\<lambda>(k, v). takes_a v) kvs, b @ filter (\<lambda>(k, v). \<not> takes_a v) kvs)"
  using assms
proof (induction kvs arbitrary: a b)
  case Nil
  then show ?case by simp
next
  case (Cons kv kvs)
  obtain k v where kv: "kv = (k, v)" by (cases kv)
  from Cons.prems(1) kv have "is_dict v" by simp
  then obtain lc where lc: "get v (lit ''lastCheckedAt'') = Inr lc"
    using is_dict_get by blast
  have fresh: "k \<notin> keys a" "k \<notin> keys b"
    using Cons.prems(3) kv by (auto simp: keys_def)
  have rest: "\<forall>v \<in> snd ` set kvs. is_dict v" "distinct (map fst kvs)"
    using Cons.prems(1,2) by simp_all
  have knew: "k \<notin> keys kvs" using Cons.prems(2) kv by (simp add: keys_def)
  show ?case
  proof (cases "is_2023_or_null lc")
    case True
    have "keys kvs \<inter> (keys (a @ [(k, v)]) \<union> keys b) = {}"
      using Cons.prems(3) knew by (auto simp: keys_def)
    from Cons.IH [OF rest this] show ?thesis
      using True lc kv fresh by (simp add: setitem_fresh takes_a_def)
  next
    case False
    have "keys kvs \<inter> (keys a \<union> keys (b @ [(k, v)])) = {}"
      using Cons.prems(3) knew by (auto simp: keys_def)
    from Cons.IH [OF rest this] show ?thesis
      using False lc kv fresh by (simp add: setitem_fresh takes_a_def)
  qed
qed

lemma run_dataset:
  "is_dataset D \<Longrightarrow>
   filter_repositories (JObj D) =
     Inr (filter (\<lambda>(k, v). takes_a v) D, filter (\<lambda>(k, v). \<not> takes_a v) D)"
  using loop_filter [of D "[]" "[]"]
  by (simp add: is_dataset_def filter_repositories_def keys_def)

lemma loop_total:
  "\<forall>v \<in> snd ` set kvs. is_dict v \<Longrightarrow> \<exists>A B. partition_loop kvs (a, b) = Inr (A, B)"
proof (induction kvs arbitrary: a b)
  case Nil
  then show ?case by simp
next
  case (Cons kv kvs)
  obtain k v where kv: "kv = (k, v)" by (cases kv)
  from Cons.prems kv have "is_dict v" by simp
  then obtain lc where lc: "get v (lit ''lastCheckedAt'') = Inr lc"
    using is_dict_get by blast
  from Cons.prems have rest: "\<forall>v \<in> snd ` set kvs. is_dict v" by simp
  show ?case using Cons.IH [OF rest] kv lc by simp
qed

lemma distinct_same_key:
  "distinct (map fst D) \<Longrightarrow> (k, v) \<in> set D \<Longrightarrow> (k, w) \<in> set D \<Longrightarrow> v = w"
  by (rule eq_key_imp_eq_value)

lemma keys_filter_disjoint:
  assumes "distinct (map fst D)"
  shows "keys (filter (\<lambda>(k, v). P v) D) \<inter> keys (filter (\<lambda>(k, v). \<not> P v) D) = {}"
proof -
  { fix k assume "k \<in> keys (filter (\<lambda>(k, v). P v) D)" "k \<in> keys (filter (\<lambda>(k, v). \<not> P v) D)"
    then obtain v w where "(k, v) \<in> set D" "P v" "(k, w) \<in> set D" "\<not> P w"
      by (auto simp: keys_def)
    with assms have False using distinct_same_key by metis }
  then show ?thesis by blast
qed

lemma keys_filter_union:
  "keys (filter (\<lambda>(k, v). P v) D) \<union> keys (filter (\<lambda>(k, v). \<not> P v) D) = keys D"
  by (auto simp: keys_def)

lemma map_of_filter_val:
  "distinct (map fst D) \<Longrightarrow>
   map_of (filter (\<lambda>(k, v). P v) D) k =
     (case map_of D k of None \<Rightarrow> None | Some v \<Rightarrow> if P v then Some v else None)"
proof (induction D)
  case Nil
  then show ?case by simp
next
  case (Cons kv D)
  obtain k' v' where kv: "kv = (k', v')" by (cases kv)
  from Cons.prems kv have notin: "k' \<notin> fst ` set D" and d: "distinct (map fst D)" by simp_all
  from notin have none: "map_of D k' = None" by (simp add: map_of_eq_None_iff)
  show ?case using Cons.IH [OF d] kv none by (auto split: option.splits)
qed

lemma key_in_filter:
  assumes "distinct (map fst D)" and "(k, v) \<in> set D"
  shows "k \<in> keys (filter P D) \<longleftrightarrow> P (k, v)"
proof
  assume "k \<in> keys (filter P D)"
  then obtain w where w: "(k, w) \<in> set D" "P (k, w)"
    by (auto simp: keys_def)
  from assms(1) w(1) assms(2) have "w = v" by (rule distinct_same_key)
  with w(2) show "P (k, v)" by simp
next
  assume "P (k, v)"
  with assms(2) have "(k, v) \<in> set (filter P D)" by simp
  then show "k \<in> keys (filter P D)" unfolding keys_def by (rule image_eqI [rotated]) simp
qed

lemma takes_a_json:
  "takes_a (JObj r) \<longleftrightarrow>
     map_of r (lit ''lastCheckedAt'') = None
   \<or> map_of r (lit ''lastCheckedAt'') = Some JNull
   \<or> (\<exists>s. map_of r (lit ''lastCheckedAt'') = Some (JStr s) \<and> take 4 s = lit ''2023'')"
proof (cases "map_of r (lit ''lastCheckedAt'')")
  case None
  then show ?thesis by (simp add: takes_a_def)
next
  case (Some v)
  then show ?thesis by (cases v) (simp_all add: takes_a_def startswith_2023)
qed

lemma entry_placed:
  assumes "is_dataset D" and "(k, v) \<in> set D"
  shows "filter_repositories (JObj D) =
           Inr (filter (\<lambda>(k, v). takes_a v) D, filter (\<lambda>(k, v). \<not> takes_a v) D)"
    and "(k, v) \<in> set (filter (\<lambda>(k, v). takes_a v) D) \<longleftrightarrow> takes_a v"
    and "(k, v) \<in> set (filter (\<lambda>(k, v). \<not> takes_a v) D) \<longleftrightarrow> \<not> takes_a v"
    and "k \<in> keys (filter (\<lambda>(k, v). takes_a v) D) \<longleftrightarrow> takes_a v"
    and "k \<in> keys (filter (\<lambda>(k, v). \<not> takes_a v) D) \<longleftrightarrow> \<not> takes_a v"
proof -
  from assms(1) have dist: "distinct (map fst D)"
    by (simp add: is_dataset_def)
  from assms(1) show "filter_repositories (JObj D) =
      Inr (filter (\<lambda>(k, v). takes_a v) D, filter (\<lambda>(k, v). \<not> takes_a v) D)"
    by (rule run_dataset)
  from assms(2) show "(k, v) \<in> set (filter (\<lambda>(k, v). takes_a v) D) \<longleftrightarrow> takes_a v"
    by simp
  from assms(2) show "(k, v) \<in> set (filter (\<lambda>(k, v). \<not> takes_a v) D) \<longleftrightarrow> \<not> takes_a v"
    by simp
  show "k \<in> keys (filter (\<lambda>(k, v). takes_a v) D) \<longleftrightarrow> takes_a v"
    by (simp add: key_in_filter [OF dist assms(2)])
  show "k \<in> keys (filter (\<lambda>(k, v). \<not> takes_a v) D) \<longleftrightarrow> \<not> takes_a v"
    by (simp add: key_in_filter [OF dist assms(2)])
qed

section \<open>The partition\<close>

text \<open>
  C1. For every Dataset \<open>D\<close> the script returns two dictionaries \<open>A\<close> and \<open>B\<close> whose key
  sets are disjoint and together are the key set of \<open>D\<close>: every key of \<open>D\<close> is a key of
  exactly one of them.
\<close>

theorem partition_keys:
  assumes "is_dataset D"
  shows "\<exists>A B. filter_repositories (JObj D) = Inr (A, B)
           \<and> keys A \<inter> keys B = {}
           \<and> keys A \<union> keys B = keys D
           \<and> (\<forall>k \<in> keys D. (k \<in> keys A) \<noteq> (k \<in> keys B))"
proof -
  let ?A = "filter (\<lambda>(k, v). takes_a v) D"
  let ?B = "filter (\<lambda>(k, v). \<not> takes_a v) D"
  from assms have run: "filter_repositories (JObj D) = Inr (?A, ?B)"
    by (rule run_dataset)
  from assms have disj: "keys ?A \<inter> keys ?B = {}"
    by (simp add: is_dataset_def keys_filter_disjoint)
  have un: "keys ?A \<union> keys ?B = keys D"
    by (rule keys_filter_union)
  from disj un have "\<forall>k \<in> keys D. (k \<in> keys ?A) \<noteq> (k \<in> keys ?B)"
    by blast
  with run disj un show ?thesis by blast
qed

text \<open>
  On a Dataset of two Records, one without \<open>lastCheckedAt\<close> and one with the number 2023.
\<close>

theorem partition_keys_witness:
  "is_dataset [(lit ''r1'', JObj []), (lit ''r2'', JObj [(lit ''lastCheckedAt'', JInt 2023)])]
   \<and> filter_repositories
         (JObj [(lit ''r1'', JObj []), (lit ''r2'', JObj [(lit ''lastCheckedAt'', JInt 2023)])])
       = Inr ([(lit ''r1'', JObj [])], [(lit ''r2'', JObj [(lit ''lastCheckedAt'', JInt 2023)])])
   \<and> keys [(lit ''r1'', JObj [])]
         \<inter> keys [(lit ''r2'', JObj [(lit ''lastCheckedAt'', JInt 2023)])] = {}
   \<and> keys [(lit ''r1'', JObj [])]
         \<union> keys [(lit ''r2'', JObj [(lit ''lastCheckedAt'', JInt 2023)])]
       = keys [(lit ''r1'', JObj []), (lit ''r2'', JObj [(lit ''lastCheckedAt'', JInt 2023)])]"
  using partition_keys
    [of "[(lit ''r1'', JObj []), (lit ''r2'', JObj [(lit ''lastCheckedAt'', JInt 2023)])]"]
  by (simp add: is_dataset_def keys_def lit_def filter_repositories_def)

text \<open>
  C2. For every entry \<open>(k, JObj r)\<close> of a Dataset, with \<open>v\<close> the value of \<open>lastCheckedAt\<close> in
  \<open>r\<close>: the entry is in \<open>A\<close> exactly when \<open>v\<close> is absent, is null, or is a string whose first
  four characters are \<open>2023\<close>; it is in \<open>B\<close> exactly when it is not in \<open>A\<close>; and \<open>k\<close> is a key
  of an output only with this very entry.
\<close>

theorem entry_classified:
  assumes "is_dataset D" and "(k, JObj r) \<in> set D"
  shows "\<exists>A B. filter_repositories (JObj D) = Inr (A, B)
           \<and> ((k, JObj r) \<in> set A \<longleftrightarrow>
                 map_of r (lit ''lastCheckedAt'') = None
               \<or> map_of r (lit ''lastCheckedAt'') = Some JNull
               \<or> (\<exists>s. map_of r (lit ''lastCheckedAt'') = Some (JStr s) \<and> take 4 s = lit ''2023''))
           \<and> ((k, JObj r) \<in> set B \<longleftrightarrow> (k, JObj r) \<notin> set A)
           \<and> (k \<in> keys A \<longleftrightarrow> (k, JObj r) \<in> set A)
           \<and> (k \<in> keys B \<longleftrightarrow> (k, JObj r) \<in> set B)"
proof -
  let ?A = "filter (\<lambda>(k, v). takes_a v) D"
  let ?B = "filter (\<lambda>(k, v). \<not> takes_a v) D"
  from assms(1) have run: "filter_repositories (JObj D) = Inr (?A, ?B)"
    by (rule run_dataset)
  from assms(1) have dist: "distinct (map fst D)"
    by (simp add: is_dataset_def)
  have a: "(k, JObj r) \<in> set ?A \<longleftrightarrow>
             map_of r (lit ''lastCheckedAt'') = None
           \<or> map_of r (lit ''lastCheckedAt'') = Some JNull
           \<or> (\<exists>s. map_of r (lit ''lastCheckedAt'') = Some (JStr s) \<and> take 4 s = lit ''2023'')"
    using assms(2) by (simp add: takes_a_json)
  have b: "(k, JObj r) \<in> set ?B \<longleftrightarrow> (k, JObj r) \<notin> set ?A"
    using assms(2) by simp
  have ka: "k \<in> keys ?A \<longleftrightarrow> (k, JObj r) \<in> set ?A"
    using assms(2) by (simp add: key_in_filter [OF dist assms(2)])
  have kb: "k \<in> keys ?B \<longleftrightarrow> (k, JObj r) \<in> set ?B"
    using assms(2) by (simp add: key_in_filter [OF dist assms(2)])
  show ?thesis
    by (intro exI [of _ ?A] exI [of _ ?B] conjI run a b ka kb)
qed

text \<open>
  On two Records, dated 2023 and 2022.
\<close>

theorem entry_classified_witness:
  "is_dataset
     [(lit ''r1'', JObj [(lit ''lastCheckedAt'', JStr (lit ''2023-05-01T00:00:00Z''))]),
      (lit ''r2'', JObj [(lit ''lastCheckedAt'', JStr (lit ''2022-11-01''))])]
   \<and> (lit ''r1'', JObj [(lit ''lastCheckedAt'', JStr (lit ''2023-05-01T00:00:00Z''))])
       \<in> set [(lit ''r1'', JObj [(lit ''lastCheckedAt'', JStr (lit ''2023-05-01T00:00:00Z''))]),
              (lit ''r2'', JObj [(lit ''lastCheckedAt'', JStr (lit ''2022-11-01''))])]
   \<and> filter_repositories (JObj
        [(lit ''r1'', JObj [(lit ''lastCheckedAt'', JStr (lit ''2023-05-01T00:00:00Z''))]),
         (lit ''r2'', JObj [(lit ''lastCheckedAt'', JStr (lit ''2022-11-01''))])])
       = Inr ([(lit ''r1'', JObj [(lit ''lastCheckedAt'', JStr (lit ''2023-05-01T00:00:00Z''))])],
              [(lit ''r2'', JObj [(lit ''lastCheckedAt'', JStr (lit ''2022-11-01''))])])
   \<and> take 4 (lit ''2023-05-01T00:00:00Z'') = lit ''2023''"
  using entry_classified
    [of "[(lit ''r1'', JObj [(lit ''lastCheckedAt'', JStr (lit ''2023-05-01T00:00:00Z''))]),
          (lit ''r2'', JObj [(lit ''lastCheckedAt'', JStr (lit ''2022-11-01''))])]"
        "lit ''r1''" "[(lit ''lastCheckedAt'', JStr (lit ''2023-05-01T00:00:00Z''))]"]
  by (simp add: is_dataset_def lit_def filter_repositories_def startswith_def)

section \<open>Failure of the classification\<close>

text \<open>
  C3, as amended. When the root is an object and every value in it is an object too, the
  script returns its two dictionaries: no Record makes the loop raise, and \<open>get\<close> on a Record
  without \<open>lastCheckedAt\<close> yields null instead of raising.
\<close>

theorem records_never_raise:
  assumes "\<forall>v \<in> snd ` set D. is_dict v"
  shows "(\<exists>A B. filter_repositories (JObj D) = Inr (A, B))
       \<and> (\<forall>r. lit ''lastCheckedAt'' \<notin> keys r \<longrightarrow>
              get (JObj r) (lit ''lastCheckedAt'') = Inr JNull)"
proof
  from assms show "\<exists>A B. filter_repositories (JObj D) = Inr (A, B)"
    by (simp add: filter_repositories_def loop_total)
next
  show "\<forall>r. lit ''lastCheckedAt'' \<notin> keys r \<longrightarrow>
          get (JObj r) (lit ''lastCheckedAt'') = Inr JNull"
    by (simp add: keys_def map_of_eq_None_iff [THEN iffD2])
qed

text \<open>
  On a single Record with no field at all.
\<close>

theorem records_never_raise_witness:
  "is_dict (JObj [] :: 'f json)
   \<and> filter_repositories (JObj [(lit ''r1'', JObj [])]) = Inr ([(lit ''r1'', JObj [])], [])
   \<and> get (JObj []) (lit ''lastCheckedAt'') = Inr JNull"
  using records_never_raise [of "[(lit ''r1'', JObj [])]"]
  by (simp add: filter_repositories_def)

text \<open>
  C3 as it is written asks only for a root that is an object. The root
  \<^verbatim>\<open>{"r1": 5}\<close> is one, \<open>items\<close> succeeds on it, and the loop raises in its first pass:
  the number 5 has no \<open>get\<close>.
\<close>

theorem non_record_entry_raises:
  "items (JObj [(lit ''r1'', JInt 5)]) = Inr [(lit ''r1'', JInt 5)]
   \<and> filter_repositories (JObj [(lit ''r1'', JInt 5)]) = Inl (AttributeError ''get'')"
  by (simp add: filter_repositories_def)

text \<open>
  C7. A root that is not an object has no \<open>items\<close>: the script raises before the loop
  starts and returns no pair of dictionaries.
\<close>

theorem non_object_root_fails:
  "\<not> is_dict data \<Longrightarrow> filter_repositories data = Inl (AttributeError ''items'')"
  by (cases data) (simp_all add: filter_repositories_def)

text \<open>
  On a root that is a list holding one Record.
\<close>

theorem non_object_root_fails_witness:
  "\<not> is_dict (JList [JObj [(lit ''lastCheckedAt'', JNull)]])
   \<and> filter_repositories (JList [JObj [(lit ''lastCheckedAt'', JNull)]])
       = Inl (AttributeError ''items'')"
  using non_object_root_fails [of "JList [JObj [(lit ''lastCheckedAt'', JNull)]]"]
  by simp

section \<open>Edge cases of the test\<close>

text \<open>
  C4. A Record whose \<open>lastCheckedAt\<close> is present, not null and not a string goes to \<open>B\<close>
  and its key is no key of \<open>A\<close>.
\<close>

theorem non_string_to_b:
  assumes "is_dataset D" and "(k, JObj r) \<in> set D"
    and "map_of r (lit ''lastCheckedAt'') = Some v"
    and "v \<noteq> JNull" and "\<forall>s. v \<noteq> JStr s"
  shows "\<exists>A B. filter_repositories (JObj D) = Inr (A, B)
           \<and> (k, JObj r) \<in> set B \<and> k \<notin> keys A"
proof -
  from assms(3-5) have "\<not> takes_a (JObj r)"
    by (simp add: takes_a_json)
  with entry_placed [OF assms(1,2)] show ?thesis by simp
qed

text \<open>
  On the Record whose \<open>lastCheckedAt\<close> is the integer 2023.
\<close>

theorem non_string_to_b_witness:
  "is_dataset [(lit ''r1'', JObj [(lit ''lastCheckedAt'', JInt 2023)])]
   \<and> (lit ''r1'', JObj [(lit ''lastCheckedAt'', JInt 2023)])
       \<in> set [(lit ''r1'', JObj [(lit ''lastCheckedAt'', JInt 2023)])]
   \<and> map_of [(lit ''lastCheckedAt'', JInt 2023)] (lit ''lastCheckedAt'') = Some (JInt 2023)
   \<and> JInt 2023 \<noteq> JNull
   \<and> (\<forall>s. JInt 2023 \<noteq> JStr s)
   \<and> filter_repositories (JObj [(lit ''r1'', JObj [(lit ''lastCheckedAt'', JInt 2023)])])
       = Inr ([], [(lit ''r1'', JObj [(lit ''lastCheckedAt'', JInt 2023)])])"
  using non_string_to_b
    [of "[(lit ''r1'', JObj [(lit ''lastCheckedAt'', JInt 2023)])]"
        "lit ''r1''" "[(lit ''lastCheckedAt'', JInt 2023)]" "JInt 2023"]
  by (simp add: is_dataset_def filter_repositories_def)

text \<open>
  C5. A Record whose \<open>lastCheckedAt\<close> is a string of fewer than four characters fails the
  prefix test and goes to \<open>B\<close>.
\<close>

theorem short_string_to_b:
  assumes "is_dataset D" and "(k, JObj r) \<in> set D"
    and "map_of r (lit ''lastCheckedAt'') = Some (JStr s)"
    and "length s < 4"
  shows "\<not> startswith s (lit ''2023'')
       \<and> (\<exists>A B. filter_repositories (JObj D) = Inr (A, B)
             \<and> (k, JObj r) \<in> set B \<and> k \<notin> keys A)"
proof -
  from assms(4) have ns: "\<not> startswith s (lit ''2023'')"
    by (simp add: startswith_def length_2023)
  with assms(3) have "\<not> takes_a (JObj r)"
    by (simp add: takes_a_def)
  with entry_placed [OF assms(1,2)] ns show ?thesis by simp
qed

text \<open>
  On the three-character string \<open>202\<close>.
\<close>

theorem short_string_to_b_witness:
  "is_dataset [(lit ''r1'', JObj [(lit ''lastCheckedAt'', JStr (lit ''202''))])]
   \<and> (lit ''r1'', JObj [(lit ''lastCheckedAt'', JStr (lit ''202''))])
       \<in> set [(lit ''r1'', JObj [(lit ''lastCheckedAt'', JStr (lit ''202''))])]
   \<and> map_of [(lit ''lastCheckedAt'', JStr (lit ''202''))] (lit ''lastCheckedAt'')
       = Some (JStr (lit ''202''))
   \<and> length (lit ''202'') < 4
   \<and> filter_repositories (JObj [(lit ''r1'', JObj [(lit ''lastCheckedAt'', JStr (lit ''202''))])])
       = Inr ([], [(lit ''r1'', JObj [(lit ''lastCheckedAt'', JStr (lit ''202''))])])"
  using short_string_to_b
    [of "[(lit ''r1'', JObj [(lit ''lastCheckedAt'', JStr (lit ''202''))])]"
        "lit ''r1''" "[(lit ''lastCheckedAt'', JStr (lit ''202''))]" "lit ''202''"]
  by (simp add: is_dataset_def filter_repositories_def startswith_def lit_def)

text \<open>
  C8. The empty Dataset gives two empty dictionaries.
\<close>

theorem empty_dataset:
  "filter_repositories (JObj []) = Inr ([], [])"
  by (simp add: filter_repositories_def)

text \<open>
  C9. On the Dataset with \<open>r1\<close> (null), \<open>r2\<close> (\<open>2023-01-01\<close>) and \<open>r3\<close> (\<open>2024-06-01\<close>),
  \<open>A\<close> holds exactly the entries of \<open>r1\<close> and \<open>r2\<close>, unchanged and in this order, and \<open>B\<close>
  exactly the entry of \<open>r3\<close>.
\<close>

theorem spec_example:
  "filter_repositories (JObj
     [(lit ''r1'', JObj [(lit ''lastCheckedAt'', JNull)]),
      (lit ''r2'', JObj [(lit ''lastCheckedAt'', JStr (lit ''2023-01-01''))]),
      (lit ''r3'', JObj [(lit ''lastCheckedAt'', JStr (lit ''2024-06-01''))])])
   = Inr ([(lit ''r1'', JObj [(lit ''lastCheckedAt'', JNull)]),
           (lit ''r2'', JObj [(lit ''lastCheckedAt'', JStr (lit ''2023-01-01''))])],
          [(lit ''r3'', JObj [(lit ''lastCheckedAt'', JStr (lit ''2024-06-01''))])])"
  by (simp add: filter_repositories_def lit_def startswith_def)

section \<open>Round trip and locality\<close>

text \<open>
  C6. For every Dataset \<open>D\<close>, merging the outputs gives back the mapping of \<open>D\<close>, in
  either order of merging: every key maps to the Record it mapped to in \<open>D\<close>. The entries
  of \<open>A\<close> and \<open>B\<close> together are the entries of \<open>D\<close>.
\<close>

theorem merge_roundtrip:
  assumes "is_dataset D"
  shows "\<exists>A B. filter_repositories (JObj D) = Inr (A, B)
           \<and> map_of A ++ map_of B = map_of D
           \<and> map_of B ++ map_of A = map_of D
           \<and> set A \<union> set B = set D"
proof -
  let ?A = "filter (\<lambda>(k, v). takes_a v) D"
  let ?B = "filter (\<lambda>(k, v). \<not> takes_a v) D"
  from assms have run: "filter_repositories (JObj D) = Inr (?A, ?B)"
    by (rule run_dataset)
  from assms have dist: "distinct (map fst D)"
    by (simp add: is_dataset_def)
  have ab: "map_of ?A ++ map_of ?B = map_of D"
    by (rule ext)
      (simp add: map_add_def map_of_filter_val [OF dist] split: option.splits)
  have ba: "map_of ?B ++ map_of ?A = map_of D"
    by (rule ext)
      (simp add: map_add_def map_of_filter_val [OF dist] split: option.splits)
  have un: "set ?A \<union> set ?B = set D"
    by auto
  show ?thesis
    by (intro exI [of _ ?A] exI [of _ ?B] conjI run ab ba un)
qed

text \<open>
  On two Records, one without \<open>lastCheckedAt\<close> and one where it is a boolean.
\<close>

theorem merge_roundtrip_witness:
  "is_dataset ([(lit ''r1'', JObj [(lit ''stars'', JInt 7)]),
                (lit ''r2'', JObj [(lit ''lastCheckedAt'', JBool True)])] :: 'f dict)
   \<and> filter_repositories (JObj
        [(lit ''r1'', JObj [(lit ''stars'', JInt 7)]),
         (lit ''r2'', JObj [(lit ''lastCheckedAt'', JBool True)])])
       = Inr ([(lit ''r1'', JObj [(lit ''stars'', JInt 7)])],
              [(lit ''r2'', JObj [(lit ''lastCheckedAt'', JBool True)])] :: 'f dict)
   \<and> map_of [(lit ''r1'', JObj [(lit ''stars'', JInt 7)])]
         ++ map_of [(lit ''r2'', JObj [(lit ''lastCheckedAt'', JBool True)])]
       = map_of ([(lit ''r1'', JObj [(lit ''stars'', JInt 7)]),
                  (lit ''r2'', JObj [(lit ''lastCheckedAt'', JBool True)])] :: 'f dict)"
proof -
  let ?D = "[(lit ''r1'', JObj [(lit ''stars'', JInt 7)]),
             (lit ''r2'', JObj [(lit ''lastCheckedAt'', JBool True)])] :: 'f dict"
  let ?A = "[(lit ''r1'', JObj [(lit ''stars'', JInt 7)])] :: 'f dict"
  let ?B = "[(lit ''r2'', JObj [(lit ''lastCheckedAt'', JBool True)])] :: 'f dict"
  have d: "is_dataset ?D"
    by (simp add: is_dataset_def lit_def)
  have r: "filter_repositories (JObj ?D) = Inr (?A, ?B)"
    by (simp add: filter_repositories_def lit_def)
  from merge_roundtrip [OF d] obtain A B
    where ab: "filter_repositories (JObj ?D) = Inr (A, B)"
      and m: "map_of A ++ map_of B = map_of ?D"
    by blast
  from ab have eq: "A = ?A" "B = ?B"
    unfolding r by simp_all
  from m have "map_of ?A ++ map_of ?B = map_of ?D"
    unfolding eq .
  with d r show ?thesis
    by (intro conjI)
qed

text \<open>
  C10. When two Datasets both hold the entry \<open>(k, v)\<close>, looking \<open>k\<close> up in \<open>A\<close> gives the
  same in both runs, and so does looking it up in \<open>B\<close>: \<open>k\<close> maps to \<open>v\<close> in one output and is
  missing from the other, whatever the other entries are.
\<close>

theorem placement_local:
  assumes "is_dataset D1" and "is_dataset D2"
    and "(k, v) \<in> set D1" and "(k, v) \<in> set D2"
  shows "\<exists>A1 B1 A2 B2.
           filter_repositories (JObj D1) = Inr (A1, B1)
         \<and> filter_repositories (JObj D2) = Inr (A2, B2)
         \<and> map_of A1 k = map_of A2 k
         \<and> map_of B1 k = map_of B2 k
         \<and> (map_of A1 k = Some v \<and> map_of B1 k = None
            \<or> map_of A1 k = None \<and> map_of B1 k = Some v)"
proof -
  let ?A = "filter (\<lambda>(k, v). takes_a v)"
  let ?B = "filter (\<lambda>(k, v). \<not> takes_a v)"
  from assms(1) have run1: "filter_repositories (JObj D1) = Inr (?A D1, ?B D1)"
    by (rule run_dataset)
  from assms(2) have run2: "filter_repositories (JObj D2) = Inr (?A D2, ?B D2)"
    by (rule run_dataset)
  from assms(1) have d1: "distinct (map fst D1)" by (simp add: is_dataset_def)
  from assms(2) have d2: "distinct (map fst D2)" by (simp add: is_dataset_def)
  from d1 assms(3) have m1: "map_of D1 k = Some v" by (rule map_of_is_SomeI)
  from d2 assms(4) have m2: "map_of D2 k = Some v" by (rule map_of_is_SomeI)
  have a: "map_of (?A D1) k = map_of (?A D2) k"
    by (simp add: map_of_filter_val [OF d1] map_of_filter_val [OF d2] m1 m2)
  have b: "map_of (?B D1) k = map_of (?B D2) k"
    by (simp add: map_of_filter_val [OF d1] map_of_filter_val [OF d2] m1 m2)
  have c: "map_of (?A D1) k = Some v \<and> map_of (?B D1) k = None
         \<or> map_of (?A D1) k = None \<and> map_of (?B D1) k = Some v"
    by (simp add: map_of_filter_val [OF d1] m1)
  show ?thesis
    by (intro exI [of _ "?A D1"] exI [of _ "?B D1"] exI [of _ "?A D2"] exI [of _ "?B D2"]
        conjI run1 run2 a b c)
qed

text \<open>
  On a Dataset with the one entry \<open>k\<close> and a second Dataset with another entry before it.
\<close>

theorem placement_local_witness:
  "is_dataset [(lit ''k'', JObj [])]
   \<and> is_dataset [(lit ''x'', JObj [(lit ''lastCheckedAt'', JInt 1)]), (lit ''k'', JObj [])]
   \<and> (lit ''k'', JObj []) \<in> set [(lit ''k'', JObj [])]
   \<and> (lit ''k'', JObj [])
       \<in> set [(lit ''x'', JObj [(lit ''lastCheckedAt'', JInt 1)]), (lit ''k'', JObj [])]
   \<and> filter_repositories (JObj [(lit ''k'', JObj [])]) = Inr ([(lit ''k'', JObj [])], [])
   \<and> filter_repositories
         (JObj [(lit ''x'', JObj [(lit ''lastCheckedAt'', JInt 1)]), (lit ''k'', JObj [])])
       = Inr ([(lit ''k'', JObj [])], [(lit ''x'', JObj [(lit ''lastCheckedAt'', JInt 1)])])"
  using placement_local
    [of "[(lit ''k'', JObj [])]"
        "[(lit ''x'', JObj [(lit ''lastCheckedAt'', JInt 1)]), (lit ''k'', JObj [])]"
        "lit ''k''" "JObj []"]
  by (simp add: is_dataset_def filter_repositories_def lit_def)

end
